theory Spec2Isabelle
  imports Main
begin

section \<open>Python strings\<close>

text \<open>
  A Python \<open>str\<close> is modelled as a \<open>string\<close>: a list of characters, each standing for
  one code point below 256, so that \<open>len\<close> is \<open>length\<close>. The whitespace test is
  \<open>str.isspace\<close> restricted to that range.
\<close>

definition isspace :: "char \<Rightarrow> bool" where
  "isspace c =
     (let n = (of_char c :: nat)
      in (9 \<le> n \<and> n \<le> 13) \<or> (28 \<le> n \<and> n \<le> 32) \<or> n = 133 \<or> n = 160)"

definition lstrip :: "string \<Rightarrow> string" where
  "lstrip s = dropWhile isspace s"

definition rstrip :: "string \<Rightarrow> string" where
  "rstrip s = rev (dropWhile isspace (rev s))"

definition strip :: "string \<Rightarrow> string" where
  "strip s = rstrip (lstrip s)"

definition zfill :: "string \<Rightarrow> nat \<Rightarrow> string" where
  \<comment> \<open>\<open>str.zfill\<close>: zeros go after a leading sign.\<close>
  "zfill s width =
     (if width \<le> length s then s
      else (case s of
              [] \<Rightarrow> replicate width CHR ''0''
            | c # rest \<Rightarrow>
                if c = CHR ''+'' \<or> c = CHR ''-''
                then c # replicate (width - length s) CHR ''0'' @ rest
                else replicate (width - length s) CHR ''0'' @ s))"

fun join :: "string \<Rightarrow> string list \<Rightarrow> string" where
  "join sep [] = []"
| "join sep [x] = x"
| "join sep (x # y # ys) = x @ sep @ join sep (y # ys)"

definition truthy :: "string option \<Rightarrow> bool" where
  \<comment> \<open>the truth value of an \<open>Optional[str]\<close>: neither \<open>None\<close> nor empty\<close>
  "truthy v = (case v of None \<Rightarrow> False | Some s \<Rightarrow> s \<noteq> [])"

definition or_empty :: "string option \<Rightarrow> string" where
  \<comment> \<open>\<open>v or ""\<close>\<close>
  "or_empty v = (case v of None \<Rightarrow> [] | Some s \<Rightarrow> s)"

definition ascii_lower :: "char \<Rightarrow> char" where
  "ascii_lower c =
     (case map_of (zip ''ABCDEFGHIJKLMNOPQRSTUVWXYZ'' ''abcdefghijklmnopqrstuvwxyz'') c of
        None \<Rightarrow> c
      | Some l \<Rightarrow> l)"

section \<open>ElementTree elements\<close>

datatype element =
  Element (etag: string) (attrib: "(string \<times> string) list") (etext: "string option")
    (children: "element list") (etail: "string option")

fun iter_below :: "element \<Rightarrow> element list" where
  \<comment> \<open>all sub-elements on all levels, in document order (\<open>.//*\<close>)\<close>
  "iter_below (Element t a x cs y) = concat (map (\<lambda>c. c # iter_below c) cs)"

fun itertext :: "element \<Rightarrow> string list" where
  "itertext (Element t a x cs y) =
     (case x of None \<Rightarrow> [] | Some s \<Rightarrow> [s])
     @ concat (map (\<lambda>c. itertext c @ (case etail c of None \<Rightarrow> [] | Some s \<Rightarrow> [s])) cs)"

definition findall_child :: "element \<Rightarrow> string \<Rightarrow> element list" where
  \<comment> \<open>\<open>e.findall("t")\<close>\<close>
  "findall_child e t = filter (\<lambda>c. etag c = t) (children e)"

definition findall_desc :: "element \<Rightarrow> string \<Rightarrow> element list" where
  \<comment> \<open>\<open>e.findall(".//t")\<close>\<close>
  "findall_desc e t = filter (\<lambda>c. etag c = t) (iter_below e)"

definition findall_desc_child :: "element \<Rightarrow> string \<Rightarrow> string \<Rightarrow> element list" where
  \<comment> \<open>\<open>e.findall(".//a/b")\<close>\<close>
  "findall_desc_child e a b = concat (map (\<lambda>d. findall_child d b) (findall_desc e a))"

definition first :: "'a list \<Rightarrow> 'a option" where
  "first xs = (case xs of [] \<Rightarrow> None | x # _ \<Rightarrow> Some x)"

definition find_child :: "element \<Rightarrow> string \<Rightarrow> element option" where
  "find_child e t = first (findall_child e t)"

definition find_desc :: "element \<Rightarrow> string \<Rightarrow> element option" where
  "find_desc e t = first (findall_desc e t)"

definition find_desc_child :: "element \<Rightarrow> string \<Rightarrow> string \<Rightarrow> element option" where
  "find_desc_child e a b = first (findall_desc_child e a b)"

definition text_of :: "element \<Rightarrow> string" where
  \<comment> \<open>what \<open>findtext\<close> returns for an element it found: its text, or \<open>""\<close>\<close>
  "text_of e = or_empty (etext e)"

definition findtext_child :: "element \<Rightarrow> string \<Rightarrow> string option" where
  "findtext_child e t = map_option text_of (find_child e t)"

definition findtext_desc :: "element \<Rightarrow> string \<Rightarrow> string option" where
  "findtext_desc e t = map_option text_of (find_desc e t)"

definition get_attr :: "element \<Rightarrow> string \<Rightarrow> string option" where
  \<comment> \<open>\<open>e.get(k)\<close>\<close>
  "get_attr e k = map_of (attrib e) k"

definition all_text :: "element \<Rightarrow> string" where
  \<comment> \<open>\<open>''.join(e.itertext())\<close>\<close>
  "all_text e = concat (itertext e)"

section \<open>The normalizer\<close>

datatype error = ValueError | NameError | HTTPError | ParseError | OSError

datatype pyval = PyNone | PyStr string | PyList "string list"

type_synonym article = "string \<rightharpoonup> pyval"

definition opt_str :: "string option \<Rightarrow> pyval" where
  "opt_str v = (case v of None \<Rightarrow> PyNone | Some s \<Rightarrow> PyStr s)"

definition month_names :: "(string \<times> nat) list" where
  \<comment> \<open>the abbreviated month names \<open>%b\<close> matches, in the C locale\<close>
  "month_names =
     [(''jan'', 1), (''feb'', 2), (''mar'', 3), (''apr'', 4), (''may'', 5), (''jun'', 6),
      (''jul'', 7), (''aug'', 8), (''sep'', 9), (''oct'', 10), (''nov'', 11), (''dec'', 12)]"

definition strptime_b :: "string \<Rightarrow> error + nat" where
  \<comment> \<open>\<open>datetime.strptime(s, '%b').month\<close>: the whole of \<open>s\<close> is a month
      abbreviation, whatever its case, or \<open>ValueError\<close>\<close>
  "strptime_b s =
     (case map_of month_names (map ascii_lower s) of
        None \<Rightarrow> Inl ValueError
      | Some m \<Rightarrow> Inr m)"

definition digit :: "nat \<Rightarrow> char" where
  "digit n = ''0123456789'' ! (n mod 10)"

definition two_digits :: "nat \<Rightarrow> string" where
  \<comment> \<open>\<open>f"{m:02}"\<close> for a month number\<close>
  "two_digits m = [digit (m div 10), digit m]"

definition convert_month_to_number :: "string \<Rightarrow> error + string" where
  "convert_month_to_number month_str =
     (case strptime_b (take 3 month_str) of
        Inr m \<Rightarrow> Inr (two_digits m)
      | Inl ValueError \<Rightarrow> Inr month_str
      | Inl e \<Rightarrow> Inl e)"

definition article_title :: "element \<Rightarrow> string" where
  "article_title article_element =
     (case find_desc article_element ''ArticleTitle'' of
        Some title_element \<Rightarrow> strip (all_text title_element)
      | None \<Rightarrow> ''No Title Available'')"

fun abstract_loop :: "element list \<Rightarrow> string \<Rightarrow> string list \<Rightarrow> string" where
  "abstract_loop [] abstract_text current_abstracts = abstract_text"
| "abstract_loop (abstract_section # rest) abstract_text current_abstracts =
     (let section_text = strip (all_text abstract_section)
      in if section_text \<in> set current_abstracts
         then abstract_loop rest abstract_text current_abstracts
         else let label = get_attr abstract_section ''Label''
              in abstract_loop rest
                   (if truthy label
                    then abstract_text @ the label @ '': '' @ section_text @ [CHR 0x0A]
                    else abstract_text @ section_text @ [CHR 0x0A])
                   (current_abstracts @ [section_text]))"

definition article_abstract :: "element \<Rightarrow> string" where
  "article_abstract article_element =
     (let abstract_text =
            (case find_desc article_element ''Abstract'' of
               None \<Rightarrow> []
             | Some abstract \<Rightarrow> abstract_loop (findall_child abstract ''AbstractText'') [] [])
      in if abstract_text \<noteq> [] then strip abstract_text else [])"

definition author_name :: "element \<Rightarrow> string" where
  "author_name author =
     (let last_name = or_empty (findtext_child author ''LastName'');
          fore_name = or_empty (findtext_child author ''ForeName'');
          collective_name = findtext_child author ''CollectiveName''
      in if truthy collective_name then the collective_name
         else strip (join '' '' [fore_name, last_name]))"

definition authors_of :: "element \<Rightarrow> string list" where
  "authors_of e = map author_name (findall_desc_child e ''AuthorList'' ''Author'')"

definition article_pubdate :: "element \<Rightarrow> string" where
  "article_pubdate article_element =
     (case find_desc article_element ''PubDate'' of
        None \<Rightarrow> ''Unknown''
      | Some pub_date \<Rightarrow>
          let year = findtext_child pub_date ''Year'';
              month = findtext_child pub_date ''Month'';
              day = findtext_child pub_date ''Day''
          in if truthy year \<and> truthy month \<and> truthy day then
               (case convert_month_to_number (the month) of
                  Inr month_num \<Rightarrow> the year @ ''-'' @ month_num @ ''-'' @ zfill (the day) 2
                | Inl _ \<Rightarrow> the year @ ''-'' @ the month @ ''-'' @ the day)
             else if truthy year \<and> truthy month then
               (case convert_month_to_number (the month) of
                  Inr month_num \<Rightarrow> the year @ ''-'' @ month_num
                | Inl _ \<Rightarrow> the year @ ''-'' @ the month)
             else if truthy year then the year
             else ''Unknown'')"

definition keywords_of :: "element \<Rightarrow> string list" where
  "keywords_of e =
     map (\<lambda>keyword. strip (the (etext keyword)))
       (filter (\<lambda>keyword. truthy (etext keyword)) (findall_desc_child e ''KeywordList'' ''Keyword''))"

definition text_or_unknown :: "element option \<Rightarrow> string" where
  \<comment> \<open>\<open>x.text.strip() if x is not None and x.text else "Unknown"\<close>\<close>
  "text_or_unknown found =
     (case found of
        None \<Rightarrow> ''Unknown''
      | Some x \<Rightarrow> if truthy (etext x) then strip (the (etext x)) else ''Unknown'')"

fun sections_loop :: "element list \<Rightarrow> article \<Rightarrow> article" where
  "sections_loop [] sections = sections"
| "sections_loop (abstract_section # rest) sections =
     (let label = get_attr abstract_section ''Label'';
          section_content = strip (all_text abstract_section)
      in sections_loop rest
           (if truthy label \<and> section_content \<noteq> []
            then sections(the label \<mapsto> PyStr section_content)
            else sections))"

definition article_sections :: "element \<Rightarrow> article" where
  "article_sections article_element =
     sections_loop (findall_desc_child article_element ''Abstract'' ''AbstractText'') Map.empty"

definition parse_pubmed_article :: "element \<Rightarrow> article" where
  "parse_pubmed_article article_element =
     (let article_dict = [''PMID'' \<mapsto> opt_str (findtext_desc article_element ''PMID'')];
          article_dict = article_dict(''Title'' \<mapsto> PyStr (article_title article_element));
          article_dict = article_dict(''Abstract'' \<mapsto> PyStr (article_abstract article_element));
          article_dict = article_dict(''Authors'' \<mapsto> PyList (authors_of article_element));
          article_dict =
            article_dict(''PublicationDate'' \<mapsto> PyStr (article_pubdate article_element));
          article_dict = article_dict(''Keywords'' \<mapsto> PyList (keywords_of article_element));
          article_dict =
            article_dict(''Journal'' \<mapsto>
              PyStr (text_or_unknown (find_desc_child article_element ''Journal'' ''Title'')));
          article_dict = article_dict ++ article_sections article_element;
          article_dict =
            article_dict(''Copyright'' \<mapsto>
              PyStr (text_or_unknown (find_desc article_element ''CopyrightInformation'')))
      in article_dict)"

definition book_pubdate :: "element \<Rightarrow> string" where
  \<comment> \<open>\<open>zfill\<close> cannot raise, so the handler around it has nothing to catch\<close>
  "book_pubdate book_element =
     (case find_desc book_element ''PubDate'' of
        None \<Rightarrow> ''Unknown''
      | Some pub_date \<Rightarrow>
          let year = findtext_child pub_date ''Year'';
              month = findtext_child pub_date ''Month'';
              day = findtext_child pub_date ''Day''
          in if truthy year \<and> truthy month \<and> truthy day then
               the year @ ''-'' @ zfill (the month) 2 @ ''-'' @ zfill (the day) 2
             else if truthy year \<and> truthy month then the year @ ''-'' @ the month
             else if truthy year then the year
             else ''Unknown'')"

definition parse_pubmed_book_article :: "element \<Rightarrow> article" where
  "parse_pubmed_book_article book_element =
     (let book_dict = [''PMID'' \<mapsto> opt_str (findtext_desc book_element ''PMID'')];
          book_dict = book_dict(''BookTitle'' \<mapsto> opt_str (findtext_desc book_element ''BookTitle''));
          book_dict = book_dict(''Authors'' \<mapsto> PyList (authors_of book_element));
          book_dict = book_dict(''PublicationDate'' \<mapsto> PyStr (book_pubdate book_element));
          book_dict = book_dict(''Keywords'' \<mapsto> PyList (keywords_of book_element));
          book_dict =
            book_dict(''Publisher'' \<mapsto> PyStr (text_or_unknown (find_desc book_element ''Publisher'')));
          book_dict =
            book_dict(''Copyright'' \<mapsto>
              PyStr (text_or_unknown (find_desc book_element ''CopyrightInformation'')))
      in book_dict)"

subsection \<open>The abstract as the specification words it\<close>

text \<open>
  The specification describes the abstract as the concatenation of one entry per section,
  a section being skipped when its text duplicates that of an earlier section. These
  definitions follow those words; \<open>abstract_loop\<close> above follows the code.
\<close>

definition section_text :: "element \<Rightarrow> string" where
  "section_text s = strip (all_text s)"




section \<open>The remote client\<close>

text \<open>
  The remote service and the libraries are a parameter of the model, the \<open>world\<close>. A
  response may depend on every request sent before it, so the client carries the log of
  its requests; the log also tells which calls a function made. A search response is taken
  as already decoded (a failure to decode it is an error of the call); a fetch response is
  the root element of the document. Dates are day numbers (every \<open>datetime\<close> of the
  program is a midnight), and their rendering as \<open>YYYY/MM/DD\<close> and its inverse are
  fields of the world, as are the current year, the identifier \<open>uuid4\<close> draws and
  the failure, if any, of each step that writes to storage. The tool and contact
  parameters of a request are constant and left out of it. The rate gate of \<open>_get\<close>
  only delays a request; it is modelled on its own below.
\<close>

datatype request = ESearch string | EFetch "string option" "string option" int int

record search_results =
  count :: int
  WebEnv :: "string option"
  QueryKey :: "string option"

datatype io_step = MakeBaseDir | WritePickle | WriteJson | MakeTxtDir | WriteTxt nat | WriteZip

record world =
  esearch :: "request list \<Rightarrow> string \<Rightarrow> error + search_results"
  efetch :: "request list \<Rightarrow> string option \<Rightarrow> string option \<Rightarrow> int \<Rightarrow> int \<Rightarrow> error + element"
  strftime :: "int \<Rightarrow> string"
  strptime :: "string \<Rightarrow> error + int"
  this_year :: string
  uuid4 :: string
  io_error :: "io_step \<Rightarrow> error option"

definition search_with_history ::
  "world \<Rightarrow> string \<Rightarrow> request list \<Rightarrow> (error + search_results) \<times> request list" where
  "search_with_history W query log = (esearch W log query, log @ [ESearch query])"

definition truthy_int :: "int option \<Rightarrow> bool" where
  "truthy_int v = (case v of None \<Rightarrow> False | Some n \<Rightarrow> n \<noteq> 0)"

partial_function (option) fetch_loop ::
  "world \<Rightarrow> string option \<Rightarrow> string option \<Rightarrow> int \<Rightarrow> int option \<Rightarrow> int \<Rightarrow> article list
     \<Rightarrow> request list \<Rightarrow> ((error + article list) \<times> request list) option" where
  "fetch_loop W webenv query_key batch_size max_results fetched articles log =
     (if truthy_int max_results \<and> the max_results \<le> fetched then Some (Inr articles, log)
      else
        let current_batch_size =
              (if truthy_int max_results \<and> the max_results - fetched < batch_size
               then the max_results - fetched else batch_size);
            log' = log @ [EFetch webenv query_key fetched current_batch_size]
        in case efetch W log webenv query_key fetched current_batch_size of
             Inl e \<Rightarrow> Some (Inl e, log')
           | Inr root \<Rightarrow>
               let batch_articles =
                     map parse_pubmed_article (findall_desc root ''PubmedArticle'')
                     @ map parse_pubmed_book_article (findall_desc root ''PubmedBookArticle'')
               in if batch_articles = [] then Some (Inr articles, log')
                  else fetch_loop W webenv query_key batch_size max_results
                         (fetched + current_batch_size) (articles @ batch_articles) log')"

definition fetch_articles ::
  "world \<Rightarrow> string option \<Rightarrow> string option \<Rightarrow> int \<Rightarrow> int option \<Rightarrow> request list
     \<Rightarrow> ((error + article list) \<times> request list) option" where
  "fetch_articles W webenv query_key batch_size max_results log =
     fetch_loop W webenv query_key batch_size max_results 0 [] log"

datatype budget = Finite int | Infinity

definition min3 :: "budget \<Rightarrow> int \<Rightarrow> int \<Rightarrow> int" where
  "min3 remaining total_available cap =
     (case remaining of
        Infinity \<Rightarrow> min total_available cap
      | Finite r \<Rightarrow> min r (min total_available cap))"

definition spent :: "budget \<Rightarrow> nat \<Rightarrow> bool" where
  \<comment> \<open>\<open>remaining - n <= 0\<close>\<close>
  "spent remaining n = (case remaining of Infinity \<Rightarrow> False | Finite r \<Rightarrow> r - int n \<le> 0)"

definition date_query :: "world \<Rightarrow> int \<Rightarrow> int \<Rightarrow> string" where
  "date_query W start end' =
     [CHR ''('', CHR 0x22] @ strftime W start @ [CHR 0x22] @ ''[PDAT] : '' @ [CHR 0x22]
     @ strftime W end' @ [CHR 0x22] @ ''[PDAT])''"

text \<open>
  The window loader. Its last branch halves the window: the midpoint is
  \<open>start + (end - start) / 2\<close> cut back to midnight, the floor of the half in days. The
  second half would start at \<open>mid_point + timedelta(days=1)\<close>, but the module binds no
  name \<open>timedelta\<close>, so evaluating that argument raises \<open>NameError\<close> before the
  second call is made.
\<close>

function recursive_load ::
  "world \<Rightarrow> string \<Rightarrow> int \<Rightarrow> int \<Rightarrow> budget \<Rightarrow> request list
     \<Rightarrow> ((error + article list) \<times> request list) option" where
  "recursive_load W query start end' remaining log =
     (let full_query = query @ '' AND '' @ date_query W start end'
      in case search_with_history W full_query log of
           (Inl e, log1) \<Rightarrow> Some (Inl e, log1)
         | (Inr search_results, log1) \<Rightarrow>
             let total_available = count search_results
             in if total_available = 0 then Some (Inr [], log1)
                else
                  let fetch_count = min3 remaining total_available 9999
                  in if fetch_count \<le> 9999 then
                       fetch_articles W (WebEnv search_results) (QueryKey search_results) 1000
                         (Some fetch_count) log1
                     else
                       let mid_point = start + (end' - start) div 2
                       in case recursive_load W query start mid_point remaining log1 of
                            None \<Rightarrow> None
                          | Some (Inl e, log2) \<Rightarrow> Some (Inl e, log2)
                          | Some (Inr first_half, log2) \<Rightarrow>
                              if spent remaining (length first_half)
                              then Some (Inr first_half, log2)
                              else Some (Inl NameError, log2))"
  by pat_completeness auto
termination
  by (relation "{}") (auto simp: min3_def split: budget.splits)

declare recursive_load.simps [simp del]

definition load_articles_by_date ::
  "world \<Rightarrow> string \<Rightarrow> string \<Rightarrow> string \<Rightarrow> int option \<Rightarrow> request list
     \<Rightarrow> ((error + article list) \<times> request list) option" where
  "load_articles_by_date W base_query start_date end_date max_results log =
     (case strptime W start_date of
        Inl e \<Rightarrow> Some (Inl e, log)
      | Inr start_dt \<Rightarrow>
          (case strptime W end_date of
             Inl e \<Rightarrow> Some (Inl e, log)
           | Inr end_dt \<Rightarrow>
               recursive_load W base_query start_dt end_dt
                 (case max_results of None \<Rightarrow> Infinity | Some m \<Rightarrow> Finite m) log))"

subsection \<open>Notions the properties are stated with\<close>

definition full_query :: "world \<Rightarrow> string \<Rightarrow> int \<Rightarrow> int \<Rightarrow> string" where
  "full_query W query start end' = query @ '' AND '' @ date_query W start end'"

definition batch_of :: "element \<Rightarrow> article list" where
  "batch_of root =
     map parse_pubmed_article (findall_desc root ''PubmedArticle'')
     @ map parse_pubmed_book_article (findall_desc root ''PubmedBookArticle'')"

definition full_pages :: "world \<Rightarrow> string option \<Rightarrow> string option \<Rightarrow> int \<Rightarrow> bool" where
  "full_pages W webenv query_key n =
     (\<forall>log off size. 0 \<le> off \<and> 0 < size \<and> off + size \<le> n \<longrightarrow>
        (\<exists>root. efetch W log webenv query_key off size = Inr root
                \<and> int (length (batch_of root)) = size))"

definition searches :: "request list \<Rightarrow> string list" where
  "searches log = concat (map (\<lambda>r. case r of ESearch q \<Rightarrow> [q] | EFetch w k off n \<Rightarrow> []) log)"

definition fetches :: "request list \<Rightarrow> (int \<times> int) list" where
  "fetches log = concat (map (\<lambda>r. case r of ESearch q \<Rightarrow> [] | EFetch w k off n \<Rightarrow> [(off, n)]) log)"

definition budget_min :: "budget \<Rightarrow> int \<Rightarrow> int" where
  "budget_min remaining n = (case remaining of Infinity \<Rightarrow> n | Finite r \<Rightarrow> min r n)"

definition positive :: "budget \<Rightarrow> bool" where
  "positive remaining = (case remaining of Infinity \<Rightarrow> True | Finite r \<Rightarrow> 0 < r)"

section \<open>The rate gate\<close>

text \<open>
  Instants are microseconds on the clock \<open>datetime.now()\<close> reads. What the environment
  decides about one call of \<open>_get\<close> is a \<open>call\<close>: the readings of the clock by the checks
  of the gate, one per turn of its loop (the sleep between two checks shows only in the
  readings), the instant the request is sent, whether the response is a success, and the
  reading stored after it. A gate that uses up its readings without opening never lets
  the request out. An execution of the client is a list of calls; it ends at the first
  response that is not a success, since the error raised leaves every caller of the
  program.
\<close>

record client =
  rateLimit :: nat
  requestsMade :: "int list"

definition new_client :: client where
  "new_client = \<lparr>rateLimit = 3, requestsMade = []\<rparr>"

definition exceededRateLimit :: "int \<Rightarrow> client \<Rightarrow> bool \<times> client" where
  "exceededRateLimit current_time c =
     (let c' = c\<lparr>requestsMade :=
                  filter (\<lambda>req_time. current_time - 1000000 < req_time) (requestsMade c)\<rparr>
      in (rateLimit c' \<le> length (requestsMade c'), c'))"

record call =
  checks :: "int list"
  sent :: int
  ok :: bool
  stamp :: int

fun wait_gate :: "client \<Rightarrow> int list \<Rightarrow> client option" where
  "wait_gate c [] = None"
| "wait_gate c (current_time # later) =
     (case exceededRateLimit current_time c of
        (True, c') \<Rightarrow> wait_gate c' later
      | (False, c') \<Rightarrow> Some c')"

definition get :: "client \<Rightarrow> call \<Rightarrow> (bool \<times> client) option" where
  "get c k =
     (case wait_gate c (checks k) of
        None \<Rightarrow> None
      | Some c' \<Rightarrow>
          if ok k then Some (True, c'\<lparr>requestsMade := requestsMade c' @ [stamp k]\<rparr>)
          else Some (False, c'))"

fun dispatches :: "client \<Rightarrow> call list \<Rightarrow> int list" where
  "dispatches c [] = []"
| "dispatches c (k # ks) =
     (case get c k of
        None \<Rightarrow> []
      | Some (True, c') \<Rightarrow> sent k # dispatches c' ks
      | Some (False, c') \<Rightarrow> [sent k])"

definition instants :: "call \<Rightarrow> int list" where
  "instants k = checks k @ [sent k, stamp k]"

definition timely :: "call list \<Rightarrow> bool" where
  "timely ks = sorted (concat (map instants ks))"

definition within :: "int \<Rightarrow> int list \<Rightarrow> nat" where
  \<comment> \<open>how many of the instants lie in the second that ends at \<open>t\<close>\<close>
  "within t ds = length (filter (\<lambda>d. t - 1000000 < d \<and> d \<le> t) ds)"

definition recent :: "int \<Rightarrow> int list \<Rightarrow> nat" where
  "recent t rm = length (filter (\<lambda>s. t - 1000000 < s) rm)"

section \<open>The retrieval job\<close>

record loader =
  progress :: int
  total :: int
  articles :: "article list"
  status :: string
  output_files :: "string \<rightharpoonup> string"
  last_updated :: int

definition new_loader :: "int \<Rightarrow> loader" where
  "new_loader now =
     \<lparr>progress = 0, total = 0, articles = [], status = ''Idle'', output_files = Map.empty,
      last_updated = now\<rparr>"

definition update_timestamp :: "int \<Rightarrow> loader \<Rightarrow> loader" where
  "update_timestamp now L = L\<lparr>last_updated := now\<rparr>"

record snapshot =
  snap_status :: string
  snap_progress :: int
  snap_total :: int

definition get_progress :: "int \<Rightarrow> loader \<Rightarrow> snapshot \<times> loader" where
  "get_progress now L =
     (let L' = update_timestamp now L
      in (\<lparr>snap_status = status L', snap_progress = progress L', snap_total = total L'\<rparr>, L'))"

datatype 'a outcome = Done 'a | Raised error | Hangs

definition date_ranges :: "world \<Rightarrow> (string \<times> string) list" where
  "date_ranges W =
     [(''1950/01/01'', ''1955/12/31''), (''1956/01/01'', ''1960/12/31''),
      (''1961/01/01'', ''1965/12/31''), (''1966/01/01'', ''1970/12/31''),
      (''1971/01/01'', ''1975/12/31''), (''1976/01/01'', ''1980/12/31''),
      (''1981/01/01'', ''1985/12/31''), (''1986/01/01'', ''1990/12/31''),
      (''1991/01/01'', ''1995/12/31''), (''1996/01/01'', ''2000/12/31''),
      (''2001/01/01'', ''2005/12/31''), (''2006/01/01'', ''2010/12/31''),
      (''2011/01/01'', ''2015/12/31''), (''2016/01/01'', ''2020/12/31''),
      (''2021/01/01'', this_year W @ ''/12/31'')]"

fun download_loop ::
  "world \<Rightarrow> string \<Rightarrow> int option \<Rightarrow> (string \<times> string) list \<Rightarrow> article list \<Rightarrow> int
     \<Rightarrow> request list \<Rightarrow> loader \<Rightarrow> loader list \<times> (article list) outcome" where
  "download_loop W search_term max_results [] all_articles total_fetched log L =
     ([], Done all_articles)"
| "download_loop W search_term max_results ((start_date, end_date) # rest) all_articles
     total_fetched log L =
     (if truthy_int max_results \<and> the max_results \<le> total_fetched then ([], Done all_articles)
      else
        let remaining =
              (if truthy_int max_results then Some (the max_results - total_fetched) else None)
        in case load_articles_by_date W search_term start_date end_date remaining log of
             None \<Rightarrow> ([], Hangs)
           | Some (Inl e, log') \<Rightarrow> ([], Raised e)
           | Some (Inr window_articles, log') \<Rightarrow>
               let all_articles' = all_articles @ window_articles;
                   total_fetched' = total_fetched + int (length window_articles);
                   L' = L\<lparr>progress := total_fetched'\<rparr>
               in if truthy_int max_results \<and> the max_results \<le> total_fetched'
                  then ([L'], Done all_articles')
                  else case download_loop W search_term max_results rest all_articles'
                              total_fetched' log' L' of
                         (states, r) \<Rightarrow> (L' # states, r))"

fun run_io :: "world \<Rightarrow> io_step list \<Rightarrow> error option" where
  "run_io W [] = None"
| "run_io W (step # steps) =
     (case io_error W step of Some e \<Rightarrow> Some e | None \<Rightarrow> run_io W steps)"

definition save_outputs :: "world \<Rightarrow> nat \<Rightarrow> loader \<Rightarrow> loader list \<times> unit outcome" where
  "save_outputs W n L =
     (let L1 = L\<lparr>status := ''Save article IDs using pickle''\<rparr>
      in case io_error W WritePickle of
           Some e \<Rightarrow> ([L1], Raised e)
         | None \<Rightarrow>
             let L2 = L1\<lparr>status := ''Save articles to JSON''\<rparr>
             in case io_error W WriteJson of
                  Some e \<Rightarrow> ([L1, L2], Raised e)
                | None \<Rightarrow>
                    let L3 = L2\<lparr>status := ''Save articles to txt''\<rparr>
                    in case run_io W (MakeTxtDir # map WriteTxt [0..<n]) of
                         Some e \<Rightarrow> ([L1, L2, L3], Raised e)
                       | None \<Rightarrow>
                           let L4 = L3\<lparr>status := ''Creating ZIP archive''\<rparr>
                           in case io_error W WriteZip of
                                Some e \<Rightarrow> ([L1, L2, L3, L4], Raised e)
                              | None \<Rightarrow>
                                  ([L1, L2, L3, L4, L4\<lparr>status := ''Completed''\<rparr>], Done ()))"

definition task :: "world \<Rightarrow> string \<Rightarrow> int option \<Rightarrow> loader \<Rightarrow> loader list \<times> unit outcome" where
  "task W search_term max_results L =
     (let base_dir = ''../data/'' @ uuid4 W
      in case io_error W MakeBaseDir of
           Some e \<Rightarrow> ([], Raised e)
         | None \<Rightarrow>
             let L1 = L\<lparr>output_files :=
                        (output_files L)(''json'' \<mapsto> base_dir @ ''/articles.json'',
                                         ''zip'' \<mapsto> base_dir @ ''/articles.zip'')\<rparr>;
                 L2 = L1\<lparr>status := ''Starting...''\<rparr>;
                 L3 = L2\<lparr>progress := 0\<rparr>;
                 L4 = L3\<lparr>articles := []\<rparr>
             in case search_with_history W search_term [] of
                  (Inl e, log) \<Rightarrow> ([L1, L2, L3, L4], Raised e)
                | (Inr search_results, log) \<Rightarrow>
                    let total_available = count search_results;
                        L5 = L4\<lparr>total := (if truthy_int max_results then the max_results
                                           else total_available),
                                 status := ''Downloading...''\<rparr>
                    in case download_loop W search_term max_results (date_ranges W) [] 0 log L5 of
                         (states, Raised e) \<Rightarrow> ([L1, L2, L3, L4, L5] @ states, Raised e)
                       | (states, Hangs) \<Rightarrow> ([L1, L2, L3, L4, L5] @ states, Hangs)
                       | (states, Done all_articles) \<Rightarrow>
                           (case save_outputs W (length all_articles) (last (L5 # states)) of
                              (saved, r) \<Rightarrow> ([L1, L2, L3, L4, L5] @ states @ saved, r)))"

definition load_articles ::
  "world \<Rightarrow> int \<Rightarrow> string \<Rightarrow> int option \<Rightarrow> loader \<Rightarrow> loader list \<times> unit outcome" where
  \<comment> \<open>the states of the loader from the launch on, and how the worker ends\<close>
  "load_articles W now search_term max_results L =
     (let L0 = update_timestamp now L
      in case task W search_term max_results L0 of (states, r) \<Rightarrow> (L0 # states, r))"

subsection \<open>The phases of the job\<close>

definition statuses :: "string list" where
  "statuses =
     [''Idle'', ''Starting...'', ''Downloading...'', ''Save article IDs using pickle'',
      ''Save articles to JSON'', ''Save articles to txt'', ''Creating ZIP archive'',
      ''Completed'']"

definition started :: "world \<Rightarrow> loader \<Rightarrow> loader list" where
  \<comment> \<open>the states the worker writes before its first search\<close>
  "started W L =
     (let L1 = L\<lparr>output_files :=
                (output_files L)(''json'' \<mapsto> (''../data/'' @ uuid4 W) @ ''/articles.json'',
                                 ''zip'' \<mapsto> (''../data/'' @ uuid4 W) @ ''/articles.zip'')\<rparr>;
          L2 = L1\<lparr>status := ''Starting...''\<rparr>;
          L3 = L2\<lparr>progress := 0\<rparr>;
          L4 = L3\<lparr>articles := []\<rparr>
      in [L1, L2, L3, L4])"

definition downloading :: "int option \<Rightarrow> search_results \<Rightarrow> loader \<Rightarrow> loader" where
  \<comment> \<open>the state written once the aggregate count is known\<close>
  "downloading max_results found L =
     L\<lparr>total := (if truthy_int max_results then the max_results else count found),
       status := ''Downloading...''\<rparr>"

section \<open>Sample records\<close>

definition section_elem :: "string \<Rightarrow> string \<Rightarrow> element" where
  \<comment> \<open>\<open><AbstractText Label="l">t</AbstractText>\<close>\<close>
  "section_elem l t = Element ''AbstractText'' [(''Label'', l)] (Some t) [] None"

definition labelled_pmid :: element where
  \<comment> \<open>a record with no PMID element and an abstract section labelled PMID\<close>
  "labelled_pmid =
     Element ''PubmedArticle'' [] None
       [Element ''Abstract'' [] None [section_elem ''PMID'' ''x''] None] None"

definition no_pmid :: element where
  "no_pmid =
     Element ''PubmedArticle'' [] None
       [Element ''Abstract'' [] None [section_elem ''Methods'' ''x''] None] None"




definition dated :: "string \<Rightarrow> string \<Rightarrow> string \<Rightarrow> element" where
  "dated y m d =
     Element ''PubmedArticle'' [] None
       [Element ''PubDate'' [] None
          [Element ''Year'' [] (Some y) [] None,
           Element ''Month'' [] (Some m) [] None,
           Element ''Day'' [] (Some d) [] None] None] None"

definition article_elem :: element where
  "article_elem = Element ''PubmedArticle'' [] None [] None"

definition page :: "int \<Rightarrow> element" where
  "page n = Element ''PubmedArticleSet'' [] None (replicate (nat n) article_elem) None"

definition paged_world :: "int \<Rightarrow> world" where
  "paged_world available =
     \<lparr>esearch = (\<lambda>log q. Inr \<lparr>count = available, WebEnv = Some ''w'', QueryKey = Some ''1''\<rparr>),
      efetch = (\<lambda>log w k off n. Inr (page (min n (available - off)))),
      strftime = (\<lambda>d. if d = 0 then ''1950/01/01'' else ''1955/12/31''),
      strptime = (\<lambda>s. if s = ''1950/01/01'' then Inr 0 else Inr 2190),
      this_year = ''2026'', uuid4 = ''u'', io_error = (\<lambda>step. None)\<rparr>"

definition failing_world :: world where
  "failing_world = (paged_world 0)\<lparr>esearch := (\<lambda>log q. Inl HTTPError)\<rparr>"

definition json_fails :: world where
  "json_fails = (paged_world 0)\<lparr>io_error := (\<lambda>step. if step = WriteJson then Some OSError else None)\<rparr>"

definition sample_calls :: "call list" where
  "sample_calls =
     [\<lparr>checks = [0], sent = 1, ok = True, stamp = 2\<rparr>,
      \<lparr>checks = [3], sent = 4, ok = True, stamp = 5\<rparr>,
      \<lparr>checks = [6], sent = 7, ok = True, stamp = 8\<rparr>,
      \<lparr>checks = [10, 500000, 1000002], sent = 1000003, ok = True, stamp = 1000004\<rparr>]"

section \<open>Properties of the normalizer\<close>

lemma sections_loop_other:
  "\<forall>s \<in> set xs. get_attr s ''Label'' \<noteq> Some k \<Longrightarrow> sections_loop xs m k = m k"
  by (induction xs arbitrary: m) (auto simp: Let_def truthy_def split: option.splits)

lemma findtext_desc_absent: "findall_desc e t = [] \<Longrightarrow> findtext_desc e t = None"
  by (simp add: findtext_desc_def find_desc_def first_def)

lemmas eval_find =
  findall_desc_child_def findall_desc_def findall_child_def find_desc_def find_child_def
  find_desc_child_def first_def findtext_child_def findtext_desc_def text_of_def or_empty_def
  get_attr_def truthy_def all_text_def

lemmas eval_strip = strip_def lstrip_def rstrip_def isspace_def

text \<open>
  C10, as stated, fails for the article variant: the labelled abstract sections are merged
  into the record after the PMID is stored, so a section labelled \<open>PMID\<close> takes the
  field over.
\<close>

theorem pmid_absent_counterexample:
  "findall_desc labelled_pmid ''PMID'' = []
   \<and> parse_pubmed_article labelled_pmid ''PMID'' = Some (PyStr ''x'')"
  by (simp add: parse_pubmed_article_def labelled_pmid_def section_elem_def article_sections_def
      eval_find eval_strip Let_def)

text \<open>
  C10 (amended): for a raw record with no PMID element anywhere below it, the book
  normalizer stores \<open>None\<close> under \<open>PMID\<close>, and so does the article normalizer when the
  labelled sections it merges hold no key \<open>PMID\<close>. Neither raises: both are total.
\<close>

theorem pmid_absent_is_none:
  assumes "findall_desc e ''PMID'' = []"
  shows "parse_pubmed_book_article e ''PMID'' = Some PyNone
         \<and> (article_sections e ''PMID'' = None
              \<longrightarrow> parse_pubmed_article e ''PMID'' = Some PyNone)"
  using assms
  by (simp add: parse_pubmed_book_article_def parse_pubmed_article_def Let_def
      findtext_desc_absent opt_str_def map_add_def)

theorem pmid_absent_is_none_witness:
  "findall_desc no_pmid ''PMID'' = [] \<and> article_sections no_pmid ''PMID'' = None
   \<and> parse_pubmed_book_article no_pmid ''PMID'' = Some PyNone
   \<and> parse_pubmed_article no_pmid ''PMID'' = Some PyNone"
proof -
  have h: "findall_desc no_pmid ''PMID'' = []"
    by (simp add: no_pmid_def section_elem_def findall_desc_def)
  have s: "article_sections no_pmid ''PMID'' = None"
    by (simp add: no_pmid_def section_elem_def article_sections_def eval_find eval_strip Let_def)
  show ?thesis
    using h s pmid_absent_is_none [OF h] by simp
qed

subsection \<open>Publication date\<close>

lemmas eval_month =
  convert_month_to_number_def strptime_b_def month_names_def ascii_lower_def two_digits_def
  digit_def

lemma convert_Jan: "convert_month_to_number ''Jan'' = Inr ''01''"
  by (simp add: eval_month)

lemma convert_January: "convert_month_to_number ''January'' = Inr ''01''"
  by (simp add: eval_month)

lemma convert_unparsable:
  "strptime_b (take 3 m) = Inl ValueError \<Longrightarrow> convert_month_to_number m = Inr m"
  by (simp add: convert_month_to_number_def)

lemma pubdate_all_present:
  assumes "find_desc e ''PubDate'' = Some p"
    and "findtext_child p ''Year'' = Some y" and "y \<noteq> []"
    and "findtext_child p ''Month'' = Some m" and "m \<noteq> []"
    and "findtext_child p ''Day'' = Some d" and "d \<noteq> []"
    and "convert_month_to_number m = Inr n"
  shows "article_pubdate e = y @ ''-'' @ n @ ''-'' @ zfill d 2"
  using assms by (simp add: article_pubdate_def truthy_def Let_def)

lemma field_lookup:
  "parse_pubmed_article e k =
     (if k = ''Copyright''
      then Some (PyStr (text_or_unknown (find_desc e ''CopyrightInformation'')))
      else case article_sections e k of
             Some v \<Rightarrow> Some v
           | None \<Rightarrow>
               ([''PMID'' \<mapsto> opt_str (findtext_desc e ''PMID''),
                 ''Title'' \<mapsto> PyStr (article_title e),
                 ''Abstract'' \<mapsto> PyStr (article_abstract e),
                 ''Authors'' \<mapsto> PyList (authors_of e),
                 ''PublicationDate'' \<mapsto> PyStr (article_pubdate e),
                 ''Keywords'' \<mapsto> PyList (keywords_of e),
                 ''Journal'' \<mapsto>
                   PyStr (text_or_unknown (find_desc_child e ''Journal'' ''Title''))]) k)"
  by (simp add: parse_pubmed_article_def Let_def map_add_def split: option.split)

text \<open>
  C7, as stated, fails in its last part: when the month cannot be parsed, the converter
  hands the month back instead of raising, so the handler that would write the raw
  \<open>year-month-day\<close> string is never entered and the day is still zero-padded.
\<close>

theorem pubdate_raw_fallback_counterexample:
  "strptime_b (take 3 ''Foo'') = Inl ValueError
   \<and> parse_pubmed_article (dated ''2020'' ''Foo'' ''5'') ''PublicationDate''
       = Some (PyStr ''2020-Foo-05'')
   \<and> ''2020-Foo-05'' \<noteq> ''2020'' @ ''-'' @ ''Foo'' @ ''-'' @ ''5''"
  by (simp add: field_lookup article_sections_def article_pubdate_def dated_def eval_find
      eval_month zfill_def)

text \<open>
  C7 (amended): for an article record whose publication date has year, month and day all
  present, the months \<open>Jan\<close> and \<open>January\<close> are rendered \<open>01\<close> and the date is
  \<open>year-01-day\<close> with the day zero-padded to two characters; when the month cannot be
  parsed the date is \<open>year-month-day\<close> with the month unchanged and the day still
  zero-padded. That value is the record's \<open>PublicationDate\<close> unless a labelled section of
  that name is merged over it.
\<close>

theorem pubdate_year_month_day:
  assumes "find_desc e ''PubDate'' = Some p"
    and "findtext_child p ''Year'' = Some y" and "y \<noteq> []"
    and "findtext_child p ''Month'' = Some m" and "m \<noteq> []"
    and "findtext_child p ''Day'' = Some d" and "d \<noteq> []"
  shows "(m = ''Jan'' \<or> m = ''January'' \<longrightarrow> article_pubdate e = y @ ''-01-'' @ zfill d 2)
       \<and> (strptime_b (take 3 m) = Inl ValueError \<longrightarrow>
            article_pubdate e = y @ ''-'' @ m @ ''-'' @ zfill d 2)
       \<and> (article_sections e ''PublicationDate'' = None \<longrightarrow>
            parse_pubmed_article e ''PublicationDate'' = Some (PyStr (article_pubdate e)))"
proof (intro conjI impI)
  assume "m = ''Jan'' \<or> m = ''January''"
  then have "convert_month_to_number m = Inr ''01''"
    using convert_Jan convert_January by blast
  from pubdate_all_present [OF assms this]
  show "article_pubdate e = y @ ''-01-'' @ zfill d 2"
    by simp
next
  assume "strptime_b (take 3 m) = Inl ValueError"
  then have "convert_month_to_number m = Inr m"
    by (rule convert_unparsable)
  from pubdate_all_present [OF assms this]
  show "article_pubdate e = y @ ''-'' @ m @ ''-'' @ zfill d 2" .
next
  assume "article_sections e ''PublicationDate'' = None"
  then show "parse_pubmed_article e ''PublicationDate'' = Some (PyStr (article_pubdate e))"
    by (simp add: field_lookup)
qed

theorem pubdate_year_month_day_witness:
  "parse_pubmed_article (dated ''2020'' ''January'' ''5'') ''PublicationDate''
     = Some (PyStr ''2020-01-05'')
   \<and> article_pubdate (dated ''2020'' ''Jan'' ''15'') = ''2020-01-15''
   \<and> article_pubdate (dated ''2020'' ''Foo'' ''5'') = ''2020-Foo-05''"
proof -
  let ?p = "\<lambda>m d. Element ''PubDate'' [] None
              [Element ''Year'' [] (Some ''2020'') [] None,
               Element ''Month'' [] (Some m) [] None,
               Element ''Day'' [] (Some d) [] None] None"
  have f: "find_desc (dated ''2020'' m d) ''PubDate'' = Some (?p m d)" for m d
    by (simp add: dated_def eval_find)
  have c: "findtext_child (?p m d) ''Year'' = Some ''2020''"
    "findtext_child (?p m d) ''Month'' = Some m"
    "findtext_child (?p m d) ''Day'' = Some d" for m d
    by (simp_all add: eval_find)
  have s: "article_sections (dated ''2020'' ''January'' ''5'') ''PublicationDate'' = None"
    by (simp add: article_sections_def dated_def eval_find)
  have u: "strptime_b (take 3 ''Foo'') = Inl ValueError"
    by (simp add: eval_month)
  note t = pubdate_year_month_day [OF f c(1) _ c(2) _ c(3)]
  have "article_pubdate (dated ''2020'' ''January'' ''5'') = ''2020-01-05''"
    and "parse_pubmed_article (dated ''2020'' ''January'' ''5'') ''PublicationDate''
         = Some (PyStr (article_pubdate (dated ''2020'' ''January'' ''5'')))"
    using t [of "''January''" "''5''"] s by (simp_all add: zfill_def)
  moreover have "article_pubdate (dated ''2020'' ''Jan'' ''15'') = ''2020-01-15''"
    using t [of "''Jan''" "''15''"] by (simp add: zfill_def)
  moreover have "article_pubdate (dated ''2020'' ''Foo'' ''5'') = ''2020-Foo-05''"
    using t [of "''Foo''" "''5''"] u by (simp add: zfill_def)
  ultimately show ?thesis
    by simp
qed

subsection \<open>Abstract\<close>














section \<open>Properties of the remote client\<close>

lemma min3_le_cap: "min3 remaining total_available cap \<le> cap"
  by (cases remaining) (simp_all add: min3_def min_def)

lemma recursive_load_eq:
  "recursive_load W query start end' remaining log =
     (case esearch W log (full_query W query start end') of
        Inl e \<Rightarrow> Some (Inl e, log @ [ESearch (full_query W query start end')])
      | Inr found \<Rightarrow>
          if count found = 0 then Some (Inr [], log @ [ESearch (full_query W query start end')])
          else fetch_articles W (WebEnv found) (QueryKey found) 1000
                 (Some (min3 remaining (count found) 9999))
                 (log @ [ESearch (full_query W query start end')]))"
  by (subst recursive_load.simps)
     (simp add: search_with_history_def Let_def min3_le_cap full_query_def split: sum.split)

lemma fetch_loop_searches:
  assumes pages: "full_pages W webenv query_key n"
  shows "0 \<le> fetched \<Longrightarrow> fetched \<le> n \<Longrightarrow> n \<noteq> 0 \<Longrightarrow>
         \<exists>got log'. fetch_loop W webenv query_key 1000 (Some n) fetched got0 log
                      = Some (Inr got, log')
                 \<and> int (length got) = int (length got0) + (n - fetched)
                 \<and> searches log' = searches log"
proof (induction "nat (n - fetched)" arbitrary: fetched got0 log rule: less_induct)
  case less
  show ?case
  proof (cases "n \<le> fetched")
    case True
    with less.prems show ?thesis
      by (subst fetch_loop.simps) (simp add: truthy_int_def)
  next
    case False
    define size where "size = (if n - fetched < 1000 then n - fetched else 1000)"
    have size: "0 < size" "fetched + size \<le> n"
      using False by (simp_all add: size_def)
    with pages less.prems obtain root where
      root: "efetch W log webenv query_key fetched size = Inr root"
        "int (length (batch_of root)) = size"
      unfolding full_pages_def by blast
    have nonempty: "batch_of root \<noteq> []"
      using root(2) size(1) by auto
    have "nat (n - (fetched + size)) < nat (n - fetched)"
      using size by simp
    from less.hyps [OF this, of "got0 @ batch_of root" "log @ [EFetch webenv query_key fetched size]"]
      less.prems size
    obtain got log' where
      rest: "fetch_loop W webenv query_key 1000 (Some n) (fetched + size) (got0 @ batch_of root)
               (log @ [EFetch webenv query_key fetched size]) = Some (Inr got, log')"
        "int (length got) = int (length (got0 @ batch_of root)) + (n - (fetched + size))"
        "searches log' = searches (log @ [EFetch webenv query_key fetched size])"
      by auto
    have "fetch_loop W webenv query_key 1000 (Some n) fetched got0 log = Some (Inr got, log')"
    proof (cases "n - fetched < 1000")
      case True
      with False less.prems(3) root(1) nonempty rest(1) show ?thesis
        by (subst fetch_loop.simps)
           (simp add: truthy_int_def Let_def size_def batch_of_def [symmetric])
    next
      case big: False
      with False less.prems(3) root(1) nonempty rest(1) show ?thesis
        by (subst fetch_loop.simps)
           (simp add: truthy_int_def Let_def size_def batch_of_def [symmetric])
    qed
    with rest(2,3) root(2) show ?thesis
      by (simp add: searches_def)
  qed
qed

lemma fetch_articles_full:
  assumes "full_pages W webenv query_key n" and "0 < n"
  shows "\<exists>got log'. fetch_articles W webenv query_key 1000 (Some n) log = Some (Inr got, log')
                 \<and> int (length got) = n \<and> searches log' = searches log"
  using fetch_loop_searches [OF assms(1), of 0 "[]" log] assms(2)
  by (simp add: fetch_articles_def)

lemma findall_desc_page:
  "findall_desc (page k) t = (if t = ''PubmedArticle'' then replicate (nat k) article_elem else [])"
proof -
  have "filter (\<lambda>c. etag c = t) (concat (map (\<lambda>c. c # iter_below c) (replicate n article_elem)))
        = (if t = ''PubmedArticle'' then replicate n article_elem else [])" for n
    by (induction n) (auto simp: article_elem_def)
  then show ?thesis
    by (simp add: findall_desc_def page_def)
qed

lemma length_batch_page: "length (batch_of (page k)) = nat k"
  by (simp add: batch_of_def findall_desc_page)

lemma full_pages_paged_world:
  "n \<le> available \<Longrightarrow> full_pages (paged_world available) (Some ''w'') (Some ''1'') n"
  by (auto simp add: full_pages_def paged_world_def length_batch_page)

text \<open>
  C4: for a window whose search reports no record, the window loader returns the empty list
  and the only request it makes is that search: no fetch is sent.
\<close>

theorem recursive_load_empty_window:
  assumes "esearch W log (full_query W query start end') = Inr found"
    and "count found = 0"
  shows "recursive_load W query start end' remaining log
         = Some (Inr [], log @ [ESearch (full_query W query start end')])
       \<and> fetches (log @ [ESearch (full_query W query start end')]) = fetches log"
  using assms by (simp add: recursive_load_eq fetches_def)

theorem recursive_load_empty_window_witness:
  "recursive_load (paged_world 0) ''q'' 0 1 (Finite 5) []
     = Some (Inr [], [ESearch (full_query (paged_world 0) ''q'' 0 1)])
   \<and> fetches [ESearch (full_query (paged_world 0) ''q'' 0 1)] = []"
proof -
  let ?found = "\<lparr>count = 0, WebEnv = Some ''w'', QueryKey = Some ''1''\<rparr>"
  have s: "esearch (paged_world 0) [] (full_query (paged_world 0) ''q'' 0 1) = Inr ?found"
    by (simp add: paged_world_def)
  have c: "count ?found = 0"
    by simp
  from recursive_load_empty_window [OF s c, of "Finite 5"] show ?thesis
    by (simp add: fetches_def)
qed

text \<open>
  C2: for a window whose search reports at most 9999 records and a positive remaining
  budget (or none), the window loader returns exactly the smaller of the two as many
  records, when every page fetched below that count comes back full.
\<close>

theorem recursive_load_within_cap:
  assumes "esearch W log (full_query W query start end') = Inr found"
    and "0 \<le> count found" and "count found \<le> 9999"
    and "positive remaining"
    and "full_pages W (WebEnv found) (QueryKey found) (budget_min remaining (count found))"
  shows "\<exists>got log'. recursive_load W query start end' remaining log = Some (Inr got, log')
                 \<and> int (length got) = budget_min remaining (count found)"
proof (cases "count found = 0")
  case True
  with assms(1,4) show ?thesis
    by (auto simp add: recursive_load_eq budget_min_def positive_def split: budget.split)
next
  case False
  have m: "min3 remaining (count found) 9999 = budget_min remaining (count found)"
    using assms(3) by (simp add: min3_def budget_min_def split: budget.split)
  have "0 < budget_min remaining (count found)"
    using False assms(2,4) by (cases remaining) (simp_all add: budget_min_def positive_def)
  from fetch_articles_full [OF assms(5) this, of "log @ [ESearch (full_query W query start end')]"]
  obtain got log' where
    "fetch_articles W (WebEnv found) (QueryKey found) 1000
       (Some (budget_min remaining (count found)))
       (log @ [ESearch (full_query W query start end')]) = Some (Inr got, log')"
    and "int (length got) = budget_min remaining (count found)"
    by blast
  with False assms(1) show ?thesis
    by (simp add: recursive_load_eq m)
qed

theorem recursive_load_within_cap_witness:
  "\<exists>got log'. recursive_load (paged_world 3) ''q'' 0 1 (Finite 2) [] = Some (Inr got, log')
             \<and> length got = 2"
proof -
  let ?found = "\<lparr>count = 3, WebEnv = Some ''w'', QueryKey = Some ''1''\<rparr>"
  have s: "esearch (paged_world 3) [] (full_query (paged_world 3) ''q'' 0 1) = Inr ?found"
    by (simp add: paged_world_def)
  have p: "full_pages (paged_world 3) (WebEnv ?found) (QueryKey ?found)
             (budget_min (Finite 2) (count ?found))"
    by (simp add: budget_min_def full_pages_paged_world)
  have "positive (Finite 2)"
    by (simp add: positive_def)
  from recursive_load_within_cap [OF s _ _ this p] show ?thesis
    by (simp add: budget_min_def)
qed

text \<open>
  C1, as stated, does not hold of the code: the count compared with 9999 is the minimum of
  the budget, the available count and 9999 itself, so the comparison always succeeds and
  the window is never split. With 10000 records in the window and no budget the loader
  sends one search, pages through the first 9999 records and returns them.
\<close>

theorem bisection_never_taken_at_10000:
  "\<exists>got log'. recursive_load (paged_world 10000) ''q'' 0 1 Infinity [] = Some (Inr got, log')
             \<and> length got = 9999
             \<and> searches log' = [full_query (paged_world 10000) ''q'' 0 1]"
proof -
  let ?q = "full_query (paged_world 10000) ''q'' 0 1"
  have pages: "full_pages (paged_world 10000) (Some ''w'') (Some ''1'') 9999"
    by (simp add: full_pages_paged_world)
  have found: "esearch (paged_world 10000) [] ?q
               = Inr \<lparr>count = 10000, WebEnv = Some ''w'', QueryKey = Some ''1''\<rparr>"
    by (simp add: paged_world_def)
  have load: "recursive_load (paged_world 10000) ''q'' 0 1 Infinity []
              = fetch_articles (paged_world 10000) (Some ''w'') (Some ''1'') 1000 (Some 9999)
                  [ESearch ?q]"
    by (simp add: recursive_load_eq found min3_def)
  from fetch_articles_full [OF pages, of "[ESearch ?q]"]
  show ?thesis
    unfolding load by (simp add: searches_def)
qed

section \<open>Properties of the retrieval job\<close>

lemma download_loop_states:
  "download_loop W search_term max_results windows all_articles total_fetched log L = (states, r)
   \<Longrightarrow> sorted (map progress states)
       \<and> (\<forall>S \<in> set states. total_fetched \<le> progress S \<and> status S = status L \<and> total S = total L)"
proof (induction windows arbitrary: all_articles total_fetched log L states r)
  case Nil
  then show ?case by simp
next
  case (Cons w windows)
  obtain start_date end_date where w: "w = (start_date, end_date)"
    by (cases w)
  show ?case
  proof (cases "truthy_int max_results \<and> the max_results \<le> total_fetched")
    case True
    with Cons.prems w show ?thesis by auto
  next
    case False
    define remaining where
      "remaining = (if truthy_int max_results then Some (the max_results - total_fetched) else None)"
    show ?thesis
    proof (cases "load_articles_by_date W search_term start_date end_date remaining log")
      case None
      with Cons.prems w False show ?thesis
        by (auto simp: remaining_def)
    next
      case (Some res)
      obtain result log' where res: "res = (result, log')"
        by (cases res)
      show ?thesis
      proof (cases result)
        case (Inl e)
        with Cons.prems w False Some res show ?thesis
          by (auto simp: remaining_def)
      next
        case (Inr window_articles)
        define tf where "tf = total_fetched + int (length window_articles)"
        define L' where "L' = L\<lparr>progress := tf\<rparr>"
        show ?thesis
        proof (cases "truthy_int max_results \<and> the max_results \<le> tf")
          case True
          with Cons.prems w False Some res Inr have "states = [L']"
            by (auto simp: remaining_def tf_def L'_def Let_def)
          then show ?thesis
            by (simp add: L'_def tf_def)
        next
          case go: False
          obtain states' r' where rest:
            "download_loop W search_term max_results windows (all_articles @ window_articles) tf log' L'
             = (states', r')"
            by (cases "download_loop W search_term max_results windows
                         (all_articles @ window_articles) tf log' L'")
          with Cons.prems w False Some res Inr go have states: "states = L' # states'"
            by (auto simp: remaining_def tf_def L'_def Let_def)
          from Cons.IH [OF rest]
          have "sorted (map progress states')"
            and "\<forall>S \<in> set states'. tf \<le> progress S \<and> status S = status L' \<and> total S = total L'"
            by simp_all
          then show ?thesis
            unfolding states by (auto simp: L'_def tf_def)
        qed
      qed
    qed
  qed
qed

lemma task_eq:
  "task W search_term max_results L =
     (case io_error W MakeBaseDir of
        Some e \<Rightarrow> ([], Raised e)
      | None \<Rightarrow>
          (case esearch W [] search_term of
             Inl e \<Rightarrow> (started W L, Raised e)
           | Inr found \<Rightarrow>
               (case download_loop W search_term max_results (date_ranges W) [] 0
                       [ESearch search_term] (downloading max_results found (last (started W L))) of
                  (dl, Raised e) \<Rightarrow>
                    (started W L @ downloading max_results found (last (started W L)) # dl, Raised e)
                | (dl, Hangs) \<Rightarrow>
                    (started W L @ downloading max_results found (last (started W L)) # dl, Hangs)
                | (dl, Done all_articles) \<Rightarrow>
                    (case save_outputs W (length all_articles)
                            (last (downloading max_results found (last (started W L)) # dl)) of
                       (saved, r) \<Rightarrow>
                         (started W L @ downloading max_results found (last (started W L)) # dl
                            @ saved, r)))))"
  by (simp add: task_def started_def downloading_def search_with_history_def Let_def
      split: option.split sum.split prod.split outcome.split)

lemma save_outputs_states:
  assumes "save_outputs W n L = (saved, r)"
  shows "saved \<noteq> []"
    and "\<forall>S \<in> set saved. progress S = progress L \<and> total S = total L
                         \<and> status S \<in> set (drop 3 statuses)"
    and "r = Raised e \<Longrightarrow> status (last saved) \<in> set (butlast statuses)"
  using assms
  by (auto simp: save_outputs_def Let_def statuses_def split: option.splits)

lemma started_states:
  "started W L \<noteq> []"
  "status (last (started W L)) = ''Starting...''"
  "progress (last (started W L)) = 0"
  "total (last (started W L)) = total L"
  "map progress (started W L) = [progress L, progress L, 0, 0]"
  "map status (started W L) = [status L, ''Starting...'', ''Starting...'', ''Starting...'']"
  by (simp_all add: started_def Let_def)


lemma sorted_le_last:
  fixes xs :: "int list"
  assumes "sorted xs" and "x \<in> set xs"
  shows "x \<le> last xs"
proof -
  from assms(2) obtain i where i: "i < length xs" "xs ! i = x"
    by (auto simp: in_set_conv_nth)
  then have "xs \<noteq> []"
    by auto
  then have "last xs = xs ! (length xs - 1)"
    by (rule last_conv_nth)
  moreover have "xs ! i \<le> xs ! (length xs - 1)"
    using assms(1) i(1) by (intro sorted_nth_mono) auto
  ultimately show ?thesis
    using i(2) by simp
qed

lemma sorted_then_constant:
  fixes f :: "'a \<Rightarrow> int"
  assumes "sorted (map f pre)" and "\<forall>S \<in> set pre. f S \<le> c" and "\<forall>S \<in> set saved. f S = c"
  shows "sorted (map f (pre @ saved))"
proof -
  have "map f saved = replicate (length saved) c"
    using assms(3) by (induction saved) simp_all
  then have "sorted (map f saved)"
    by (simp add: sorted_replicate)
  with assms show ?thesis
    by (auto simp: sorted_append)
qed

lemma new_loader_fields:
  "progress (update_timestamp now (new_loader t0)) = 0"
  "total (update_timestamp now (new_loader t0)) = 0"
  "status (update_timestamp now (new_loader t0)) = ''Idle''"
  by (simp_all add: update_timestamp_def new_loader_def)

lemma downloading_fields:
  "progress (downloading max_results found L) = progress L"
  "total (downloading max_results found L)
   = (if truthy_int max_results then the max_results else count found)"
  "status (downloading max_results found L) = ''Downloading...''"
  by (simp_all add: downloading_def)

lemma job_progress_sorted:
  assumes "load_articles W now search_term max_results (new_loader t0) = (states, r)"
  shows "sorted (map progress states)"
proof -
  let ?L0 = "update_timestamp now (new_loader t0)"
  obtain ts where task: "task W search_term max_results ?L0 = (ts, r)" and states: "states = ?L0 # ts"
    using assms by (auto simp: load_articles_def Let_def split: prod.splits)
  show ?thesis
  proof (cases "io_error W MakeBaseDir")
    case (Some e)
    with task states show ?thesis
      by (simp add: task_eq)
  next
    case None
    show ?thesis
    proof (cases "esearch W [] search_term")
      case (Inl e)
      with task None have "ts = started W ?L0"
        by (simp add: task_eq)
      then have "map progress states = [0, 0, 0, 0, 0]"
        by (simp add: states started_states new_loader_fields)
      then show ?thesis
        by simp
    next
      case (Inr found)
      let ?D = "downloading max_results found (last (started W ?L0))"
      obtain dl r' where dl:
        "download_loop W search_term max_results (date_ranges W) [] 0 [ESearch search_term] ?D
         = (dl, r')"
        by (cases "download_loop W search_term max_results (date_ranges W) [] 0
                     [ESearch search_term] ?D")
      from download_loop_states [OF dl]
      have sorted_dl: "sorted (map progress dl)" and ge: "\<forall>S \<in> set dl. 0 \<le> progress S"
        by simp_all
      have head: "sorted (map progress (?L0 # started W ?L0 @ ?D # dl))"
        using sorted_dl ge
        by (auto simp: started_states new_loader_fields downloading_fields sorted_append)
      show ?thesis
      proof (cases r')
        case (Done all_articles)
        obtain saved r'' where saved:
          "save_outputs W (length all_articles) (last (?D # dl)) = (saved, r'')"
          by (cases "save_outputs W (length all_articles) (last (?D # dl))")
        have ts: "ts = started W ?L0 @ ?D # dl @ saved"
          using task None Inr dl Done saved by (simp add: task_eq)
        have same: "\<forall>S \<in> set saved. progress S = progress (last (?D # dl))"
          using save_outputs_states(2) [OF saved] by simp
        have top: "\<forall>S \<in> set (?L0 # started W ?L0 @ ?D # dl). progress S \<le> progress (last (?D # dl))"
        proof (cases "dl = []")
          case True
          then show ?thesis
            by (auto simp: started_def Let_def new_loader_fields downloading_fields)
        next
          case False
          have "progress S \<le> progress (last dl)" if "S \<in> set dl" for S
            using sorted_le_last [OF sorted_dl, of "progress S"] that False
            by (simp add: last_map)
          moreover have "0 \<le> progress (last dl)"
            using ge False by simp
          ultimately show ?thesis
            using False by (auto simp: started_def Let_def new_loader_fields downloading_fields)
        qed
        from head top same
        have "sorted (map progress ((?L0 # started W ?L0 @ ?D # dl) @ saved))"
          by (rule sorted_then_constant)
        then show ?thesis
          by (simp add: states ts)
      next
        case (Raised e)
        with task None Inr dl have "ts = started W ?L0 @ ?D # dl"
          by (simp add: task_eq)
        with head show ?thesis
          by (simp add: states)
      next
        case Hangs
        with task None Inr dl have "ts = started W ?L0 @ ?D # dl"
          by (simp add: task_eq)
        with head show ?thesis
          by (simp add: states)
      qed
    qed
  qed
qed


lemma job_cases:
  assumes job: "load_articles W now search_term max_results (new_loader t0) = (states, r)"
    and L0: "L0 = update_timestamp now (new_loader t0)"
  obtains
    (mkdir) e where "io_error W MakeBaseDir = Some e" and "states = [L0]" and "r = Raised e"
  | (search) e where "io_error W MakeBaseDir = None" and "esearch W [] search_term = Inl e"
      and "states = L0 # started W L0" and "r = Raised e"
  | (stopped) found dl r' where "io_error W MakeBaseDir = None"
      and "esearch W [] search_term = Inr found"
      and "download_loop W search_term max_results (date_ranges W) [] 0 [ESearch search_term]
             (downloading max_results found (last (started W L0))) = (dl, r')"
      and "states = L0 # started W L0 @ downloading max_results found (last (started W L0)) # dl"
      and "(\<exists>e. r' = Raised e \<and> r = Raised e) \<or> (r' = Hangs \<and> r = Hangs)"
  | (saving) found dl all_articles saved where "io_error W MakeBaseDir = None"
      and "esearch W [] search_term = Inr found"
      and "download_loop W search_term max_results (date_ranges W) [] 0 [ESearch search_term]
             (downloading max_results found (last (started W L0))) = (dl, Done all_articles)"
      and "save_outputs W (length all_articles)
             (last (downloading max_results found (last (started W L0)) # dl)) = (saved, r)"
      and "states = L0 # started W L0 @ downloading max_results found (last (started W L0)) # dl
                      @ saved"
proof -
  obtain ts where task: "task W search_term max_results L0 = (ts, r)" and states: "states = L0 # ts"
    using job unfolding L0 by (auto simp: load_articles_def Let_def split: prod.splits)
  show thesis
  proof (cases "io_error W MakeBaseDir")
    case (Some e)
    with task states show thesis
      by (intro mkdir [of e]) (simp_all add: task_eq)
  next
    case None
    show thesis
    proof (cases "esearch W [] search_term")
      case (Inl e)
      with task states None show thesis
        by (intro search [of e]) (simp_all add: task_eq)
    next
      case (Inr found)
      let ?D = "downloading max_results found (last (started W L0))"
      obtain dl r' where dl:
        "download_loop W search_term max_results (date_ranges W) [] 0 [ESearch search_term] ?D
         = (dl, r')"
        by (cases "download_loop W search_term max_results (date_ranges W) [] 0
                     [ESearch search_term] ?D")
      show thesis
      proof (cases r')
        case (Done all_articles)
        obtain saved r'' where saved:
          "save_outputs W (length all_articles) (last (?D # dl)) = (saved, r'')"
          by (cases "save_outputs W (length all_articles) (last (?D # dl))")
        have "ts = started W L0 @ ?D # dl @ saved" and "r = r''"
          using task None Inr dl Done saved by (simp_all add: task_eq)
        with None Inr dl Done saved states show thesis
          by (intro saving [of found dl all_articles saved]) simp_all
      next
        case (Raised e)
        with task None Inr dl have "ts = started W L0 @ ?D # dl" and "r = Raised e"
          by (simp_all add: task_eq)
        with None Inr dl Raised states show thesis
          by (intro stopped [of found dl r']) simp_all
      next
        case Hangs
        with task None Inr dl have "ts = started W L0 @ ?D # dl" and "r = Hangs"
          by (simp_all add: task_eq)
        with None Inr dl Hangs states show thesis
          by (intro stopped [of found dl r']) simp_all
      qed
    qed
  qed
qed

lemma last_download:
  assumes "download_loop W search_term max_results windows all_articles total_fetched log L
           = (dl, r)"
  shows "status (last (L # dl)) = status L" and "total (last (L # dl)) = total L"
proof -
  have "last (L # dl) = L \<or> last (L # dl) \<in> set dl"
    by (cases "dl = []") simp_all
  with download_loop_states [OF assms] show "status (last (L # dl)) = status L"
    and "total (last (L # dl)) = total L"
    by auto
qed

lemma job_raised:
  assumes job: "load_articles W now search_term max_results (new_loader t0) = (states, Raised e)"
  shows "status (last states) \<in> set (butlast statuses)"
  using job refl
proof (cases rule: job_cases)
  case (mkdir e')
  then show ?thesis
    by (simp add: new_loader_fields statuses_def)
next
  case (search e')
  then show ?thesis
    by (simp add: started_states statuses_def)
next
  case (stopped found dl r')
  from last_download(1) [OF stopped(3)] stopped(4) show ?thesis
    by (simp add: downloading_fields statuses_def started_states)
next
  case (saving found dl all_articles saved)
  from save_outputs_states(1,3) [OF saving(4)] saving(5) show ?thesis
    by simp
qed

lemma job_total:
  assumes job: "load_articles W now search_term max_results (new_loader t0) = (states, r)"
    and "io_error W MakeBaseDir = None" and "esearch W [] search_term = Inr found"
  shows "total (last states) = (if truthy_int max_results then the max_results else count found)"
  using job refl
proof (cases rule: job_cases)
  case (mkdir e')
  with assms(2) show ?thesis by simp
next
  case (search e')
  with assms(3) show ?thesis by simp
next
  case (stopped found' dl r')
  from last_download(2) [OF stopped(3)] stopped(2,4) assms(3) show ?thesis
    by (simp add: downloading_fields started_states)
next
  case (saving found' dl all_articles saved)
  from save_outputs_states(1,2) [OF saving(4)]
  have "total (last saved) = total (last (downloading max_results found'
          (last (started W (update_timestamp now (new_loader t0)))) # dl))" and "saved \<noteq> []"
    by simp_all
  with last_download(2) [OF saving(3)] saving(2,5) assms(3) show ?thesis
    by (simp add: downloading_fields)
qed

lemma job_statuses:
  assumes job: "load_articles W now search_term max_results (new_loader t0) = (states, r)"
  shows "set (map status states) \<subseteq> set statuses"
  using job refl
proof (cases rule: job_cases)
  case (mkdir e')
  then show ?thesis
    by (simp add: new_loader_fields statuses_def)
next
  case (search e')
  then show ?thesis
    by (simp add: started_states new_loader_fields statuses_def)
next
  case (stopped found dl r')
  from download_loop_states [OF stopped(3)]
  have "\<forall>S \<in> set dl. status S = ''Downloading...''"
    by (simp add: downloading_fields)
  then have "status ` set dl \<subseteq> set statuses"
    by (auto simp: statuses_def)
  with stopped(4) show ?thesis
    by (simp add: started_states new_loader_fields downloading_fields) (simp add: statuses_def)
next
  case (saving found dl all_articles saved)
  from download_loop_states [OF saving(3)]
  have "\<forall>S \<in> set dl. status S = ''Downloading...''"
    by (simp add: downloading_fields)
  then have "status ` set dl \<subseteq> set statuses"
    by (auto simp: statuses_def)
  moreover from save_outputs_states(2) [OF saving(4)]
  have "status ` set saved \<subseteq> set statuses"
    by (auto simp: statuses_def)
  ultimately show ?thesis
    using saving(5)
    by (simp add: started_states new_loader_fields downloading_fields) (simp add: statuses_def)
qed

subsection \<open>Sample runs\<close>

lemma load_articles_by_date_empty:
  assumes "\<And>log q. \<exists>found. esearch W log q = Inr found \<and> count found = 0"
    and "\<And>s. \<exists>d. strptime W s = Inr d"
  shows "\<exists>log'. load_articles_by_date W search_term start_date end_date remaining log
               = Some (Inr [], log')"
proof -
  obtain s where s: "strptime W start_date = Inr s"
    using assms(2) by blast
  obtain e where e: "strptime W end_date = Inr e"
    using assms(2) by blast
  obtain found where "esearch W log (full_query W search_term s e) = Inr found" "count found = 0"
    using assms(1) by blast
  then show ?thesis
    by (simp add: load_articles_by_date_def s e recursive_load_eq)
qed

lemma download_loop_empty:
  assumes "\<And>log q. \<exists>found. esearch W log q = Inr found \<and> count found = 0"
    and "\<And>s. \<exists>d. strptime W s = Inr d"
    and "0 < m"
  shows "download_loop W search_term (Some m) windows all_articles 0 log L
         = (replicate (length windows) (L\<lparr>progress := 0\<rparr>), Done all_articles)"
proof (induction windows arbitrary: log L)
  case Nil
  show ?case by simp
next
  case (Cons w windows)
  obtain start_date end_date where w: "w = (start_date, end_date)"
    by (cases w)
  obtain log' where
    "load_articles_by_date W search_term start_date end_date (Some m) log = Some (Inr [], log')"
    using load_articles_by_date_empty [OF assms(1,2)] by blast
  with assms(3) show ?case
    by (simp add: w truthy_int_def Cons.IH Let_def)
qed

lemma empty_world_searches:
  "\<exists>found. esearch (paged_world 0) log q = Inr found \<and> count found = 0"
  "\<exists>found. esearch json_fails log q = Inr found \<and> count found = 0"
  "\<exists>d. strptime (paged_world 0) s = Inr d"
  "\<exists>d. strptime json_fails s = Inr d"
  by (simp_all add: paged_world_def json_fails_def)

lemma empty_job:
  "snd (load_articles (paged_world 0) 0 ''q'' (Some 100) (new_loader 0)) = Done ()"
  "total (last (fst (load_articles (paged_world 0) 0 ''q'' (Some 100) (new_loader 0)))) = 100"
  "progress (last (fst (load_articles (paged_world 0) 0 ''q'' (Some 100) (new_loader 0)))) = 0"
proof -
  have dl: "download_loop (paged_world 0) ''q'' (Some 100) windows [] 0 log L
            = (replicate (length windows) (L\<lparr>progress := 0\<rparr>), Done [])" for windows log L
    by (rule download_loop_empty) (simp_all add: empty_world_searches)
  have w: "io_error (paged_world 0) = (\<lambda>step. None)"
    "esearch (paged_world 0) [] ''q'' = Inr \<lparr>count = 0, WebEnv = Some ''w'', QueryKey = Some ''1''\<rparr>"
    by (simp_all add: paged_world_def)
  show "snd (load_articles (paged_world 0) 0 ''q'' (Some 100) (new_loader 0)) = Done ()"
    by (simp add: load_articles_def task_eq w dl save_outputs_def Let_def)
  show "total (last (fst (load_articles (paged_world 0) 0 ''q'' (Some 100) (new_loader 0)))) = 100"
    by (simp add: load_articles_def task_eq w dl save_outputs_def Let_def downloading_def
        truthy_int_def)
  show "progress (last (fst (load_articles (paged_world 0) 0 ''q'' (Some 100) (new_loader 0)))) = 0"
    by (simp add: load_articles_def task_eq w dl save_outputs_def Let_def downloading_def
        truthy_int_def started_def)
qed

lemma failing_job:
  "load_articles failing_world 0 ''q'' (Some 100) (new_loader 0)
   = (update_timestamp 0 (new_loader 0) # started failing_world (update_timestamp 0 (new_loader 0)),
      Raised HTTPError)"
  by (simp add: load_articles_def task_eq failing_world_def paged_world_def Let_def)

lemma json_fails_job:
  "snd (load_articles json_fails 0 ''q'' (Some 100) (new_loader 0)) = Raised OSError"
  "status (last (fst (load_articles json_fails 0 ''q'' (Some 100) (new_loader 0))))
   = ''Save articles to JSON''"
proof -
  have dl: "download_loop json_fails ''q'' (Some 100) windows [] 0 log L
            = (replicate (length windows) (L\<lparr>progress := 0\<rparr>), Done [])" for windows log L
    by (rule download_loop_empty) (simp_all add: empty_world_searches)
  have w: "io_error json_fails = (\<lambda>step. if step = WriteJson then Some OSError else None)"
    "esearch json_fails [] ''q'' = Inr \<lparr>count = 0, WebEnv = Some ''w'', QueryKey = Some ''1''\<rparr>"
    by (simp_all add: paged_world_def json_fails_def)
  show "snd (load_articles json_fails 0 ''q'' (Some 100) (new_loader 0)) = Raised OSError"
    by (simp add: load_articles_def task_eq w dl save_outputs_def Let_def)
  show "status (last (fst (load_articles json_fails 0 ''q'' (Some 100) (new_loader 0))))
        = ''Save articles to JSON''"
    by (simp add: load_articles_def task_eq w dl save_outputs_def Let_def)
qed


lemma run_io_none: "io_error W = (\<lambda>step. None) \<Longrightarrow> run_io W steps = None"
  by (induction steps) simp_all

lemma small_job:
  "length (fst (load_articles (paged_world 3) 0 ''q'' (Some 2) (new_loader 0))) = 12"
  "progress (fst (load_articles (paged_world 3) 0 ''q'' (Some 2) (new_loader 0)) ! 0) = 0"
  "progress (fst (load_articles (paged_world 3) 0 ''q'' (Some 2) (new_loader 0)) ! 6) = 2"
proof -
  let ?W = "paged_world 3"
  let ?found = "\<lparr>count = 3, WebEnv = Some ''w'', QueryKey = Some ''1''\<rparr>"
  have w: "io_error ?W = (\<lambda>step. None)" "esearch ?W log q = Inr ?found"
    "strptime ?W ''1950/01/01'' = Inr 0" "strptime ?W ''1955/12/31'' = Inr 2190" for log q
    by (simp_all add: paged_world_def)
  have "full_pages ?W (Some ''w'') (Some ''1'') 2"
    by (simp add: full_pages_paged_world)
  from fetch_articles_full [OF this, of "[ESearch ''q''] @ [ESearch (full_query ?W ''q'' 0 2190)]"]
  obtain got log' where
    got: "fetch_articles ?W (Some ''w'') (Some ''1'') 1000 (Some 2)
            ([ESearch ''q''] @ [ESearch (full_query ?W ''q'' 0 2190)]) = Some (Inr got, log')"
      "length got = 2"
    by auto
  have window: "load_articles_by_date ?W ''q'' ''1950/01/01'' ''1955/12/31'' (Some 2) [ESearch ''q'']
                = Some (Inr got, log')"
    using got(1) by (simp add: load_articles_by_date_def w recursive_load_eq min3_def)
  have dl: "download_loop ?W ''q'' (Some 2) (date_ranges ?W) [] 0 [ESearch ''q''] L
            = ([L\<lparr>progress := 2\<rparr>], Done got)" for L
    by (simp add: date_ranges_def window got(2) truthy_int_def Let_def)
  have job: "fst (load_articles ?W 0 ''q'' (Some 2) (new_loader 0))
             = update_timestamp 0 (new_loader 0) # started ?W (update_timestamp 0 (new_loader 0))
               @ downloading (Some 2) ?found (last (started ?W (update_timestamp 0 (new_loader 0))))
               # [downloading (Some 2) ?found (last (started ?W (update_timestamp 0 (new_loader 0))))
                    \<lparr>progress := 2\<rparr>]
               @ fst (save_outputs ?W 2
                   (downloading (Some 2) ?found (last (started ?W (update_timestamp 0 (new_loader 0))))
                    \<lparr>progress := 2\<rparr>))"
    by (simp add: load_articles_def task_eq w dl got(2) Let_def split: prod.split)
  have saved: "length (fst (save_outputs ?W 2 L)) = 5" for L
    by (simp add: save_outputs_def w(1) run_io_none Let_def)
  have started: "length (started ?W L) = 4" for L
    by (simp add: started_def Let_def)
  show "length (fst (load_articles ?W 0 ''q'' (Some 2) (new_loader 0))) = 12"
    by (simp add: job saved started)
  show "progress (fst (load_articles ?W 0 ''q'' (Some 2) (new_loader 0)) ! 0) = 0"
    by (simp add: job new_loader_fields)
  show "progress (fst (load_articles ?W 0 ''q'' (Some 2) (new_loader 0)) ! 6) = 2"
    by (simp add: job nth_append started nth_Cons')
qed


text \<open>
  C5: the progress values a poller reads are non-decreasing for the whole of a job: of two
  reads, the later one sees a state written no earlier, and its progress is no smaller.
\<close>

theorem progress_monotone:
  assumes "load_articles W now search_term max_results (new_loader t0) = (states, r)"
    and "i \<le> j" and "j < length states"
  shows "snap_progress (fst (get_progress t1 (states ! i)))
         \<le> snap_progress (fst (get_progress t2 (states ! j)))"
proof -
  have "sorted (map progress states)"
    using assms(1) by (rule job_progress_sorted)
  then have "map progress states ! i \<le> map progress states ! j"
    using assms(2,3) by (intro sorted_nth_mono) simp_all
  then show ?thesis
    using assms(2,3) by (simp add: get_progress_def update_timestamp_def Let_def)
qed

theorem progress_monotone_witness:
  "length (fst (load_articles (paged_world 3) 0 ''q'' (Some 2) (new_loader 0))) = 12
   \<and> snap_progress (fst (get_progress 1
        (fst (load_articles (paged_world 3) 0 ''q'' (Some 2) (new_loader 0)) ! 0))) = 0
   \<and> snap_progress (fst (get_progress 2
        (fst (load_articles (paged_world 3) 0 ''q'' (Some 2) (new_loader 0)) ! 6))) = 2
   \<and> snap_progress (fst (get_progress 1
        (fst (load_articles (paged_world 3) 0 ''q'' (Some 2) (new_loader 0)) ! 0)))
     \<le> snap_progress (fst (get_progress 2
        (fst (load_articles (paged_world 3) 0 ''q'' (Some 2) (new_loader 0)) ! 6)))"
proof -
  let ?J = "load_articles (paged_world 3) 0 ''q'' (Some 2) (new_loader 0)"
  have j: "?J = (fst ?J, snd ?J)"
    by simp
  have b: "(0::nat) \<le> 6" "6 < length (fst ?J)"
    by (simp_all add: small_job)
  from progress_monotone [OF j b, of 1 2] show ?thesis
    by (simp add: small_job get_progress_def update_timestamp_def Let_def)
qed

text \<open>
  C3, as stated, fails: the job has no status for a failure. When the first search raises,
  the worker stops and the status stays \<open>Starting...\<close>, which is what a poller reads from
  then on.
\<close>

theorem failure_status_counterexample:
  "snd (load_articles failing_world 0 ''q'' (Some 100) (new_loader 0)) = Raised HTTPError
   \<and> status (last (fst (load_articles failing_world 0 ''q'' (Some 100) (new_loader 0))))
       = ''Starting...''
   \<and> snap_status (fst (get_progress 1
        (last (fst (load_articles failing_world 0 ''q'' (Some 100) (new_loader 0))))))
       \<noteq> ''Failed''"
  by (simp add: failing_job started_states get_progress_def update_timestamp_def Let_def)

text \<open>
  C3 (amended): when an operation of a job raises, the worker stops there and records
  nothing: the status stays the last one written before the failure, one of the statuses
  before \<open>Completed\<close>; no state of the job ever has the status \<open>Failed\<close>; and a poller reads
  the status, progress and total of that last state.
\<close>

theorem failure_freezes_status:
  assumes "load_articles W now search_term max_results (new_loader t0) = (states, Raised e)"
  shows "status (last states) \<in> set (butlast statuses)
       \<and> ''Failed'' \<notin> set (map status states)
       \<and> fst (get_progress t (last states))
           = \<lparr>snap_status = status (last states), snap_progress = progress (last states),
              snap_total = total (last states)\<rparr>"
proof (intro conjI)
  show "status (last states) \<in> set (butlast statuses)"
    using assms by (rule job_raised)
  have "''Failed'' \<notin> set statuses"
    by (simp add: statuses_def)
  with job_statuses [OF assms] show "''Failed'' \<notin> set (map status states)"
    by blast
  show "fst (get_progress t (last states))
        = \<lparr>snap_status = status (last states), snap_progress = progress (last states),
           snap_total = total (last states)\<rparr>"
    by (simp add: get_progress_def update_timestamp_def Let_def)
qed

theorem failure_freezes_status_witness:
  "snd (load_articles json_fails 0 ''q'' (Some 100) (new_loader 0)) = Raised OSError
   \<and> status (last (fst (load_articles json_fails 0 ''q'' (Some 100) (new_loader 0))))
       = ''Save articles to JSON''
   \<and> status (last (fst (load_articles json_fails 0 ''q'' (Some 100) (new_loader 0))))
       \<in> set (butlast statuses)
   \<and> ''Failed'' \<notin> set (map status (fst (load_articles json_fails 0 ''q'' (Some 100) (new_loader 0))))"
proof -
  let ?J = "load_articles json_fails 0 ''q'' (Some 100) (new_loader 0)"
  have j: "?J = (fst ?J, Raised OSError)"
    using json_fails_job(1) by (simp add: prod_eq_iff)
  from failure_freezes_status [OF j] show ?thesis
    by (simp add: json_fails_job)
qed

text \<open>
  C9, as stated, fails: the total is set once, to the requested maximum, and never lowered.
  When every window is empty, a job asked for 100 records completes with progress 0 and
  total 100.
\<close>

theorem total_not_lowered_counterexample:
  "(\<forall>log q. \<exists>found. esearch (paged_world 0) log q = Inr found \<and> count found = 0)
   \<and> snd (load_articles (paged_world 0) 0 ''q'' (Some 100) (new_loader 0)) = Done ()
   \<and> progress (last (fst (load_articles (paged_world 0) 0 ''q'' (Some 100) (new_loader 0)))) = 0
   \<and> total (last (fst (load_articles (paged_world 0) 0 ''q'' (Some 100) (new_loader 0)))) = 100"
  by (simp add: empty_job empty_world_searches)

text \<open>
  C9 (amended): once the output directory exists and the first search has answered, the
  job's total is the requested maximum whenever one other than 0 was given, however many
  records exist, and the count that search reported otherwise; it keeps that value to
  the end of the job.
\<close>

theorem total_is_requested_maximum:
  assumes "load_articles W now search_term max_results (new_loader t0) = (states, r)"
    and "io_error W MakeBaseDir = None"
    and "esearch W [] search_term = Inr found"
  shows "total (last states) = (if truthy_int max_results then the max_results else count found)"
  using assms by (rule job_total)

theorem total_is_requested_maximum_witness:
  "total (last (fst (load_articles (paged_world 3) 0 ''q'' (Some 2) (new_loader 0)))) = 2
   \<and> total (last (fst (load_articles (paged_world 3) 0 ''q'' None (new_loader 0)))) = 3"
proof -
  let ?J = "\<lambda>m. load_articles (paged_world 3) 0 ''q'' m (new_loader 0)"
  have j: "?J m = (fst (?J m), snd (?J m))" for m
    by simp
  have io: "io_error (paged_world 3) MakeBaseDir = None"
    by (simp add: paged_world_def)
  have s: "esearch (paged_world 3) [] ''q''
           = Inr \<lparr>count = 3, WebEnv = Some ''w'', QueryKey = Some ''1''\<rparr>"
    by (simp add: paged_world_def)
  from total_is_requested_maximum [OF j io s, of "Some 2"]
    total_is_requested_maximum [OF j io s, of None]
  show ?thesis
    by (simp add: truthy_int_def)
qed

section \<open>Properties of the rate gate\<close>

lemma wait_gate_opens:
  assumes "sorted ts" and "wait_gate c ts = Some c'"
  shows "\<exists>g \<in> set ts. requestsMade c' = filter (\<lambda>s. g - 1000000 < s) (requestsMade c)
                      \<and> length (requestsMade c') < rateLimit c \<and> rateLimit c' = rateLimit c"
  using assms
proof (induction ts arbitrary: c)
  case Nil
  then show ?case by simp
next
  case (Cons t ts)
  let ?c1 = "c\<lparr>requestsMade := filter (\<lambda>s. t - 1000000 < s) (requestsMade c)\<rparr>"
  show ?case
  proof (cases "rateLimit c \<le> length (requestsMade ?c1)")
    case True
    with Cons.prems(2) have "wait_gate ?c1 ts = Some c'"
      by (simp add: exceededRateLimit_def Let_def)
    moreover have "sorted ts"
      using Cons.prems(1) by simp
    ultimately obtain g where g: "g \<in> set ts"
      "requestsMade c' = filter (\<lambda>s. g - 1000000 < s) (requestsMade ?c1)"
      "length (requestsMade c') < rateLimit ?c1" "rateLimit c' = rateLimit ?c1"
      using Cons.IH by blast
    have "t \<le> g"
      using Cons.prems(1) g(1) by simp
    then have "filter (\<lambda>s. g - 1000000 < s) (filter (\<lambda>s. t - 1000000 < s) (requestsMade c))
               = filter (\<lambda>s. g - 1000000 < s) (requestsMade c)"
      by (auto intro: filter_cong)
    with g show ?thesis
      by auto
  next
    case False
    with Cons.prems(2) have "c' = ?c1"
      by (simp add: exceededRateLimit_def Let_def)
    with False show ?thesis
      by auto
  qed
qed


lemma dispatches_are_sent: "set (dispatches c ks) \<subseteq> sent ` set ks"
proof (induction ks arbitrary: c)
  case Nil
  show ?case by simp
next
  case (Cons k ks)
  show ?case
  proof (cases "get c k")
    case None
    then show ?thesis by simp
  next
    case (Some res)
    obtain b c' where "res = (b, c')"
      by (cases res)
    with Some Cons.IH [of c'] show ?thesis
      by (cases b) auto
  qed
qed

lemma recent_le_length: "recent t rm \<le> length rm"
  by (simp add: recent_def)

lemma recent_after_gate:
  assumes "g \<le> t"
  shows "recent t (filter (\<lambda>s. g - 1000000 < s) rm) = recent t rm"
proof -
  have "filter (\<lambda>s. t - 1000000 < s) (filter (\<lambda>s. g - 1000000 < s) rm)
        = filter (\<lambda>s. t - 1000000 < s) rm"
    using assms by (auto intro: filter_cong)
  then show ?thesis
    by (simp add: recent_def)
qed

lemma dispatches_bound:
  assumes "timely ks" and "length (requestsMade c) \<le> rateLimit c"
  shows "recent t (requestsMade c) + within t (dispatches c ks) \<le> rateLimit c"
  using assms
proof (induction ks arbitrary: c)
  case Nil
  then show ?case
    using recent_le_length [of t "requestsMade c"] by (simp add: within_def)
next
  case (Cons k ks)
  have order: "sorted (checks k)" "\<forall>g \<in> set (checks k). g \<le> sent k" "sent k \<le> stamp k"
    "\<forall>x \<in> set (concat (map instants ks)). stamp k \<le> x" "timely ks"
    using Cons.prems(1) by (auto simp: timely_def instants_def sorted_append)
  have later: "stamp k \<le> d" if "d \<in> set (dispatches c' ks)" for d c'
  proof -
    from that dispatches_are_sent [of c' ks] obtain k' where "k' \<in> set ks" "d = sent k'"
      by auto
    then have "d \<in> set (concat (map instants ks))"
      by (auto simp: instants_def)
    with order(4) show ?thesis
      by blast
  qed
  show ?case
  proof (cases "wait_gate c (checks k)")
    case None
    then show ?thesis
      using recent_le_length [of t "requestsMade c"] Cons.prems(2)
      by (simp add: get_def within_def)
  next
    case (Some c0)
    from wait_gate_opens [OF order(1) Some] obtain g where g: "g \<in> set (checks k)"
      "requestsMade c0 = filter (\<lambda>s. g - 1000000 < s) (requestsMade c)"
      "length (requestsMade c0) < rateLimit c" "rateLimit c0 = rateLimit c"
      by blast
    have gd: "g \<le> sent k"
      using order(2) g(1) by blast
    show ?thesis
    proof (cases "g \<le> t")
      case early: False
      then have "t < sent k"
        using gd by simp
      moreover have "within t (dispatches c' ks) = 0" for c'
      proof -
        have "\<not> d \<le> t" if "d \<in> set (dispatches c' ks)" for d
          using later [OF that] order(3) gd early by simp
        then show ?thesis
          by (simp add: within_def)
      qed
      ultimately have "within t (dispatches c (k # ks)) = 0"
        using Some by (simp add: get_def within_def)
      then show ?thesis
        using recent_le_length [of t "requestsMade c"] Cons.prems(2) by simp
    next
      case True
      have rec: "recent t (requestsMade c) = recent t (requestsMade c0)"
        using recent_after_gate [OF True] g(2) by simp
      show ?thesis
      proof (cases "ok k")
        case False
        then have "dispatches c (k # ks) = [sent k]"
          using Some by (simp add: get_def)
        then have "within t (dispatches c (k # ks)) \<le> 1"
          by (simp add: within_def)
        moreover have "recent t (requestsMade c0) < rateLimit c"
          using recent_le_length [of t "requestsMade c0"] g(3) by simp
        ultimately show ?thesis
          using rec by simp
      next
        case ok: True
        let ?c1 = "c0\<lparr>requestsMade := requestsMade c0 @ [stamp k]\<rparr>"
        have run: "dispatches c (k # ks) = sent k # dispatches ?c1 ks"
          using Some ok by (simp add: get_def)
        have "length (requestsMade ?c1) \<le> rateLimit ?c1"
          using g(3,4) by simp
        from Cons.IH [OF order(5) this]
        have ih: "recent t (requestsMade c0 @ [stamp k]) + within t (dispatches ?c1 ks)
                  \<le> rateLimit c"
          using g(4) by simp
        have "within t [sent k] \<le> recent t [stamp k]"
          using order(3) by (simp add: within_def recent_def)
        moreover have "recent t (requestsMade c0 @ [stamp k])
                       = recent t (requestsMade c0) + recent t [stamp k]"
          by (simp add: recent_def)
        moreover have "within t (sent k # dispatches ?c1 ks)
                       = within t [sent k] + within t (dispatches ?c1 ks)"
          by (simp add: within_def)
        ultimately show ?thesis
          using ih rec run by simp
      qed
    qed
  qed
qed

lemma wait_gate_result:
  "wait_gate c ts = Some c' \<Longrightarrow>
   length (requestsMade c') < rateLimit c'
   \<and> (\<exists>g \<in> set ts. \<forall>s \<in> set (requestsMade c'). g - 1000000 < s)"
proof (induction ts arbitrary: c)
  case Nil
  then show ?case by simp
next
  case (Cons t ts)
  let ?c1 = "c\<lparr>requestsMade := filter (\<lambda>s. t - 1000000 < s) (requestsMade c)\<rparr>"
  show ?case
  proof (cases "rateLimit c \<le> length (requestsMade ?c1)")
    case True
    with Cons.prems have "wait_gate ?c1 ts = Some c'"
      by (simp add: exceededRateLimit_def Let_def)
    from Cons.IH [OF this] show ?thesis
      by auto
  next
    case False
    with Cons.prems have "c' = ?c1"
      by (simp add: exceededRateLimit_def Let_def)
    with False show ?thesis
      by auto
  qed
qed

text \<open>
  C6: in every execution of the client, no second holds more than three dispatched
  requests; and when the gate lets a request through, fewer than \<open>rateLimit\<close> timestamps
  are retained, each less than a second older than the clock reading that opened it.
\<close>

theorem rate_limit_respected:
  assumes "timely ks"
  shows "within t (dispatches new_client ks) \<le> 3
       \<and> (wait_gate c ts = Some c' \<longrightarrow>
            length (requestsMade c') < rateLimit c'
            \<and> (\<exists>g \<in> set ts. \<forall>s \<in> set (requestsMade c'). g - 1000000 < s))"
proof
  show "within t (dispatches new_client ks) \<le> 3"
    using dispatches_bound [OF assms, of new_client t]
    by (simp add: new_client_def recent_def)
  show "wait_gate c ts = Some c' \<longrightarrow>
        length (requestsMade c') < rateLimit c'
        \<and> (\<exists>g \<in> set ts. \<forall>s \<in> set (requestsMade c'). g - 1000000 < s)"
    using wait_gate_result by blast
qed

theorem rate_limit_respected_witness:
  "timely sample_calls
   \<and> dispatches new_client sample_calls = [1, 4, 7, 1000003]
   \<and> within 1000003 (dispatches new_client sample_calls) = 3
   \<and> within 1000003 (dispatches new_client sample_calls) \<le> 3
   \<and> wait_gate \<lparr>rateLimit = 3, requestsMade = [2, 5, 8]\<rparr> [10, 500000, 1000002]
       = Some \<lparr>rateLimit = 3, requestsMade = [5, 8]\<rparr>
   \<and> length (requestsMade \<lparr>rateLimit = 3, requestsMade = [5, 8]\<rparr>) < 3"
proof -
  have t: "timely sample_calls"
    by (simp add: timely_def sample_calls_def instants_def)
  have d: "dispatches new_client sample_calls = [1, 4, 7, 1000003]"
    by (simp add: sample_calls_def new_client_def get_def exceededRateLimit_def Let_def)
  have g: "wait_gate \<lparr>rateLimit = 3, requestsMade = [2, 5, 8]\<rparr> [10, 500000, 1000002]
           = Some \<lparr>rateLimit = 3, requestsMade = [5, 8]\<rparr>"
    by (simp add: exceededRateLimit_def Let_def)
  from rate_limit_respected [OF t, of 1000003 "\<lparr>rateLimit = 3, requestsMade = [2, 5, 8]\<rparr>"
      "[10, 500000, 1000002]" "\<lparr>rateLimit = 3, requestsMade = [5, 8]\<rparr>"] g
  show ?thesis
    by (simp add: t d within_def)
qed

end
